theory Spec2Isabelle
  imports Main
begin

section \<open>Rectangle\<close>

text \<open>
  \<^verbatim>\<open>function Rectangle(width, height) { return { height, width, getArea() { return width * height; } }; }\<close>

  The returned object literal has two data properties and one method. The method closes
  over the parameters of the call, not over the properties of the object. The numbers of
  the language and their product are left abstract: any type with a multiplication.
\<close>

record 'a rectangle =
  height :: 'a
  width :: 'a
  getArea :: "unit \<Rightarrow> 'a"

definition Rectangle :: "'a::times \<Rightarrow> 'a \<Rightarrow> 'a rectangle" where
  "Rectangle width0 height0 =
     \<lparr> height = height0, width = width0, getArea = (\<lambda>_. width0 * height0) \<rparr>"


section \<open>Objects, prototypes and the store\<close>

text \<open>
  The selector builder is one object literal, \<^verbatim>\<open>cssSelectorBuilder\<close>, and every method
  makes its result with \<^verbatim>\<open>Object.create(cssSelectorBuilder)\<close>: a new object with no own
  property whose prototype is the literal. A property that an object does not own is read
  from its prototype. Objects therefore live in a store, addressed by position, and each
  holds its prototype and its own data properties (\<open>None\<close>: the object has no such own
  property).
\<close>

type_synonym addr = nat

record jsobject =
  proto :: "addr option"
  result :: "string option"
  order :: "int option"
  occurEl :: "int option"
  occurId :: "int option"
  occurPE :: "int option"

text \<open>The store of objects in order of creation, and what \<^verbatim>\<open>console.log\<close> has printed.\<close>

record world =
  heap :: "jsobject list"
  console :: "int list"

text \<open>
  Reading a property walks the prototype chain. An object is created after its prototype
  (\<^verbatim>\<open>Object.create\<close> takes an existing object), so the chain descends through the store;
  a property found nowhere reads as \<^verbatim>\<open>undefined\<close>, here \<open>None\<close>.
\<close>

function lookup :: "jsobject list \<Rightarrow> (jsobject \<Rightarrow> 'a option) \<Rightarrow> addr \<Rightarrow> 'a option" where
  "lookup h f a =
     (if a < length h then
        (case f (h ! a) of
           Some v \<Rightarrow> Some v
         | None \<Rightarrow>
            (case proto (h ! a) of
               None \<Rightarrow> None
             | Some p \<Rightarrow> if p < a then lookup h f p else None))
      else None)"
  by pat_completeness auto
termination
  by (relation "measure (\<lambda>(h, f, a). a)") auto

declare lookup.simps [simp del]

definition get :: "world \<Rightarrow> addr \<Rightarrow> (jsobject \<Rightarrow> 'a option) \<Rightarrow> 'a option" where
  "get w a f = lookup (heap w) f a"

text \<open>Assignment \<^verbatim>\<open>o.p = v\<close> to a data property makes or overwrites the own property.\<close>

definition put :: "world \<Rightarrow> addr \<Rightarrow> (jsobject \<Rightarrow> jsobject) \<Rightarrow> world" where
  "put w a upd = w\<lparr>heap := (heap w)[a := upd (heap w ! a)]\<rparr>"

definition Object_create :: "world \<Rightarrow> addr \<Rightarrow> world \<times> addr" where
  "Object_create w p =
     (w\<lparr>heap := heap w @
         [\<lparr>proto = Some p, result = None, order = None,
           occurEl = None, occurId = None, occurPE = None\<rparr>]\<rparr>,
      length (heap w))"

text \<open>A template literal \<^verbatim>\<open>`${x}`\<close> prints a string as it is and \<^verbatim>\<open>undefined\<close> by its name.\<close>

definition template :: "string option \<Rightarrow> string" where
  "template x = (case x of Some s \<Rightarrow> s | None \<Rightarrow> ''undefined'')"


section \<open>The selector builder\<close>

text \<open>
  The two \<^verbatim>\<open>Error\<close>s the builder throws, told apart by their messages: "Selector parts
  should be arranged in the following order: ..." and "Element, id and pseudo-element
  should not occur more then one time inside the selector".
\<close>

datatype error = OrderViolation | CardinalityViolation

text \<open>The object literal, at the first address of the store.\<close>

definition cssSelectorBuilder :: addr where
  "cssSelectorBuilder = 0"

definition origin :: jsobject where
  "origin = \<lparr>proto = None, result = Some '''', order = Some 0,
             occurEl = Some 0, occurId = Some 0, occurPE = Some 0\<rparr>"

definition init :: world where
  "init = \<lparr>heap = [origin], console = []\<rparr>"

text \<open>Sequencing of statements: a \<^verbatim>\<open>throw\<close> skips the rest.\<close>

definition andThen ::
  "world \<times> (error + 'a) \<Rightarrow> (world \<Rightarrow> 'a \<Rightarrow> world \<times> (error + 'b)) \<Rightarrow> world \<times> (error + 'b)" where
  "andThen m k = (case m of (w, Inl e) \<Rightarrow> (w, Inl e) | (w, Inr x) \<Rightarrow> k w x)"

text \<open>
  \<^verbatim>\<open>checkOrder(order) { if (this.order > order) throw new Error(...) }\<close>:
  the comparison of \<^verbatim>\<open>undefined\<close> with a number is false.
\<close>

definition checkOrder :: "world \<Rightarrow> addr \<Rightarrow> int \<Rightarrow> world \<times> (error + unit)" where
  "checkOrder w this ord =
     (case get w this order of
        Some n \<Rightarrow> if n > ord then (w, Inl OrderViolation) else (w, Inr ())
      | None \<Rightarrow> (w, Inr ()))"

text \<open>
  \<^verbatim>\<open>checkOccur(occur) { if (occur === 1) { console.log(occur); throw new Error(...) } }\<close>
\<close>

definition checkOccur :: "world \<Rightarrow> addr \<Rightarrow> int option \<Rightarrow> world \<times> (error + unit)" where
  "checkOccur w this occur =
     (case occur of
        Some n \<Rightarrow>
          if n = 1 then (w\<lparr>console := console w @ [n]\<rparr>, Inl CardinalityViolation)
          else (w, Inr ())
      | None \<Rightarrow> (w, Inr ()))"

definition element :: "world \<Rightarrow> addr \<Rightarrow> string \<Rightarrow> world \<times> (error + addr)" where
  "element w this v =
     andThen (checkOrder w this 1) (\<lambda>w1 _.
     andThen (checkOccur w1 this (get w1 this occurEl)) (\<lambda>w2 _.
       let (w3, cssObject) = Object_create w2 cssSelectorBuilder;
           w4 = put w3 cssObject (order_update (\<lambda>_. Some 1));
           w5 = put w4 cssObject (occurEl_update (\<lambda>_. Some 1));
           w6 = put w5 cssObject (result_update (\<lambda>_. Some (template (get w5 this result) @ v)))
       in (w6, Inr cssObject)))"

definition id_sel :: "world \<Rightarrow> addr \<Rightarrow> string \<Rightarrow> world \<times> (error + addr)" where
  "id_sel w this v =
     andThen (checkOrder w this 2) (\<lambda>w1 _.
     andThen (checkOccur w1 this (get w1 this occurId)) (\<lambda>w2 _.
       let (w3, cssObject) = Object_create w2 cssSelectorBuilder;
           w4 = put w3 cssObject (order_update (\<lambda>_. Some 2));
           w5 = put w4 cssObject (occurId_update (\<lambda>_. Some 1));
           w6 = put w5 cssObject
                  (result_update (\<lambda>_. Some (template (get w5 this result) @ ''#'' @ v)))
       in (w6, Inr cssObject)))"

definition class_sel :: "world \<Rightarrow> addr \<Rightarrow> string \<Rightarrow> world \<times> (error + addr)" where
  "class_sel w this v =
     andThen (checkOrder w this 3) (\<lambda>w1 _.
       let (w2, cssObject) = Object_create w1 cssSelectorBuilder;
           w3 = put w2 cssObject (order_update (\<lambda>_. Some 3));
           w4 = put w3 cssObject
                  (result_update (\<lambda>_. Some (template (get w3 this result) @ ''.'' @ v)))
       in (w4, Inr cssObject))"

definition attr :: "world \<Rightarrow> addr \<Rightarrow> string \<Rightarrow> world \<times> (error + addr)" where
  "attr w this v =
     andThen (checkOrder w this 4) (\<lambda>w1 _.
       let (w2, cssObject) = Object_create w1 cssSelectorBuilder;
           w3 = put w2 cssObject (order_update (\<lambda>_. Some 4));
           w4 = put w3 cssObject
                  (result_update (\<lambda>_. Some (template (get w3 this result) @ ''['' @ v @ '']'')))
       in (w4, Inr cssObject))"

definition pseudoClass :: "world \<Rightarrow> addr \<Rightarrow> string \<Rightarrow> world \<times> (error + addr)" where
  "pseudoClass w this v =
     andThen (checkOrder w this 5) (\<lambda>w1 _.
       let (w2, cssObject) = Object_create w1 cssSelectorBuilder;
           w3 = put w2 cssObject (order_update (\<lambda>_. Some 5));
           w4 = put w3 cssObject
                  (result_update (\<lambda>_. Some (template (get w3 this result) @ '':'' @ v)))
       in (w4, Inr cssObject))"

definition pseudoElement :: "world \<Rightarrow> addr \<Rightarrow> string \<Rightarrow> world \<times> (error + addr)" where
  "pseudoElement w this v =
     andThen (checkOrder w this 6) (\<lambda>w1 _.
     andThen (checkOccur w1 this (get w1 this occurPE)) (\<lambda>w2 _.
       let (w3, cssObject) = Object_create w2 cssSelectorBuilder;
           w4 = put w3 cssObject (order_update (\<lambda>_. Some 6));
           w5 = put w4 cssObject (occurPE_update (\<lambda>_. Some 1));
           w6 = put w5 cssObject
                  (result_update (\<lambda>_. Some (template (get w5 this result) @ ''::'' @ v)))
       in (w6, Inr cssObject)))"

definition combine ::
  "world \<Rightarrow> addr \<Rightarrow> addr \<Rightarrow> string \<Rightarrow> addr \<Rightarrow> world \<times> (error + addr)" where
  "combine w this selector1 combinator selector2 =
     (let (w1, comb) = Object_create w cssSelectorBuilder;
          w2 = put w1 comb
                 (result_update (\<lambda>_. Some (template (get w1 selector1 result) @ '' '' @
                    combinator @ '' '' @ template (get w1 selector2 result))))
      in (w2, Inr comb))"

definition stringify :: "world \<Rightarrow> addr \<Rightarrow> world \<times> (error + string option)" where
  "stringify w this = (w, Inr (get w this result))"

section \<open>Chained calls\<close>

text \<open>
  The six methods that add a selector part, the number each passes to \<^verbatim>\<open>checkOrder\<close>
  and writes to \<^verbatim>\<open>order\<close>, and a call \<^verbatim>\<open>b.part(v)\<close> by the name of its part.
\<close>

datatype part = Element | Id | Class | Attr | PseudoClass | PseudoElement

fun ordinal :: "part \<Rightarrow> int" where
  "ordinal Element = 1"
| "ordinal Id = 2"
| "ordinal Class = 3"
| "ordinal Attr = 4"
| "ordinal PseudoClass = 5"
| "ordinal PseudoElement = 6"

fun add :: "part \<Rightarrow> world \<Rightarrow> addr \<Rightarrow> string \<Rightarrow> world \<times> (error + addr)" where
  "add Element = element"
| "add Id = id_sel"
| "add Class = class_sel"
| "add Attr = attr"
| "add PseudoClass = pseudoClass"
| "add PseudoElement = pseudoElement"

text \<open>The parts whose method calls \<^verbatim>\<open>checkOccur\<close>.\<close>

fun once :: "part \<Rightarrow> bool" where
  "once Element = True"
| "once Id = True"
| "once PseudoElement = True"
| "once _ = False"

text \<open>A chain \<^verbatim>\<open>b.p1(v1).p2(v2)...\<close>: each call's receiver is the previous call's result.\<close>

fun chain :: "(part \<times> string) list \<Rightarrow> world \<Rightarrow> addr \<Rightarrow> world \<times> (error + addr)" where
  "chain [] w b = (w, Inr b)"
| "chain ((p, v) # ps) w b = andThen (add p w b v) (chain ps)"

text \<open>Any one call of the builder that makes a selector.\<close>

datatype call = Add part addr string | Combine addr addr string addr

fun exec :: "call \<Rightarrow> world \<Rightarrow> world \<times> (error + addr)" where
  "exec (Add p this v) w = add p w this v"
| "exec (Combine this selector1 combinator selector2) w =
     combine w this selector1 combinator selector2"

text \<open>The text each part appends, as the specification's table gives it.\<close>

fun spec_append :: "part \<Rightarrow> string \<Rightarrow> string" where
  "spec_append Element v = v"
| "spec_append Id v = ''#'' @ v"
| "spec_append Class v = ''.'' @ v"
| "spec_append Attr v = ''['' @ v @ '']''"
| "spec_append PseudoClass v = '':'' @ v"
| "spec_append PseudoElement v = ''::'' @ v"

text \<open>The object literal still holds the values it was written with.\<close>

definition intact :: "world \<Rightarrow> bool" where
  "intact w = (cssSelectorBuilder < length (heap w) \<and> heap w ! cssSelectorBuilder = origin)"

text \<open>An object of the store that is the literal or was made from it.\<close>

definition builder :: "world \<Rightarrow> addr \<Rightarrow> bool" where
  "builder w a =
     (a < length (heap w) \<and>
      (a = cssSelectorBuilder \<or> proto (heap w ! a) = Some cssSelectorBuilder))"

text \<open>The object a successful call of a part's method leaves at the end of the store.\<close>

definition made :: "part \<Rightarrow> string \<Rightarrow> jsobject" where
  "made p r =
     \<lparr>proto = Some cssSelectorBuilder, result = Some r, order = Some (ordinal p),
      occurEl = (if p = Element then Some 1 else None),
      occurId = (if p = Id then Some 1 else None),
      occurPE = (if p = PseudoElement then Some 1 else None)\<rparr>"

text \<open>
  What a part's method hands to \<^verbatim>\<open>checkOccur\<close>: the receiver's flag for the part, as it
  reads. The methods for class, attribute and pseudo-class make no such call.
\<close>

fun occur :: "part \<Rightarrow> world \<Rightarrow> addr \<Rightarrow> int option" where
  "occur Element w b = get w b occurEl"
| "occur Id w b = get w b occurId"
| "occur PseudoElement w b = get w b occurPE"
| "occur _ w b = None"

section \<open>Reading the store\<close>

lemma lookup_append: "a < length h \<Longrightarrow> lookup (h @ xs) f a = lookup h f a"
proof (induction a rule: less_induct)
  case (less a)
  show ?case
    using less.prems less.IH
    by (subst (1 2) lookup.simps) (auto simp: nth_append split: option.splits)
qed

lemma lookup_same_fields:
  assumes "length h' = length h"
    and "\<And>i. i < length h \<Longrightarrow> f (h' ! i) = f (h ! i) \<and> proto (h' ! i) = proto (h ! i)"
  shows "lookup h' f a = lookup h f a"
proof (induction a rule: less_induct)
  case (less a)
  show ?case
    using assms less.IH
    by (subst (1 2) lookup.simps) (auto split: option.splits)
qed

lemma get_put_other:
  assumes "\<And>x. f (upd x) = f x" and "\<And>x. proto (upd x) = proto x"
  shows "get (put w a upd) b f = get w b f"
proof -
  have "f ((heap w)[a := upd (heap w ! a)] ! i) = f (heap w ! i) \<and>
        proto ((heap w)[a := upd (heap w ! a)] ! i) = proto (heap w ! i)"
    if "i < length (heap w)" for i
    using that assms by (cases "i = a") simp_all
  then have "lookup ((heap w)[a := upd (heap w ! a)]) f b = lookup (heap w) f b"
    by (intro lookup_same_fields) simp_all
  then show ?thesis
    by (simp add: get_def put_def)
qed

lemma get_create_old:
  "b < length (heap w) \<Longrightarrow> get (fst (Object_create w p)) b f = get w b f"
  by (simp add: get_def Object_create_def lookup_append)

lemma get_old: "a < length (heap w) \<Longrightarrow> get (w\<lparr>heap := heap w @ xs\<rparr>) a f = get w a f"
  by (simp add: get_def lookup_append)

lemma get_console [simp]: "get (w\<lparr>console := c\<rparr>) a f = get w a f"
  by (simp add: get_def)

lemma get_new_own:
  "f x = Some y \<Longrightarrow> get (w\<lparr>heap := heap w @ [x]\<rparr>) (length (heap w)) f = Some y"
  by (simp add: get_def, subst lookup.simps) simp

lemma get_new_inherit:
  assumes "f x = None" and "proto x = Some cssSelectorBuilder"
  shows "get (w\<lparr>heap := heap w @ [x]\<rparr>) (length (heap w)) f = get w cssSelectorBuilder f"
proof (cases "heap w = []")
  case True
  then show ?thesis
    using assms by (simp add: get_def cssSelectorBuilder_def lookup.simps [of _ _ 0])
next
  case False
  then have "lookup (heap w @ [x]) f 0 = lookup (heap w) f 0"
    by (simp add: lookup_append)
  then show ?thesis
    using assms False
    by (simp add: get_def cssSelectorBuilder_def lookup.simps [of "heap w @ [x]" f "length (heap w)"])
qed

lemma get_origin: "intact w \<Longrightarrow> f origin = Some y \<Longrightarrow> get w cssSelectorBuilder f = Some y"
  by (simp add: intact_def get_def, subst lookup.simps) simp

lemma builder_result: "intact w \<Longrightarrow> builder w a \<Longrightarrow> \<exists>s. get w a result = Some s"
  by (simp add: intact_def builder_def get_def cssSelectorBuilder_def origin_def,
      subst lookup.simps, simp split: option.splits, subst lookup.simps, auto)


section \<open>What a call does to the store\<close>

text \<open>
  Each method in one equation: the order check, the occurrence check, and the object the
  call appends to the store. The equations of \<open>add\<close> are unfolded on request only, so
  that this equation is the one the simplifier uses.
\<close>

declare add.simps [simp del]

lemma add_eq_gen:
  "add p w b v =
     (if (\<exists>n. get w b order = Some n \<and> ordinal p < n) then (w, Inl OrderViolation)
      else if occur p w b = Some 1
        then (w\<lparr>console := console w @ [1]\<rparr>, Inl CardinalityViolation)
      else (w\<lparr>heap := heap w @
              [made p (template (get (fst (Object_create w cssSelectorBuilder)) b result)
                 @ spec_append p v)]\<rparr>,
            Inr (length (heap w))))"
proof (cases p)
  case Element
  then show ?thesis
    by (simp add: add.simps element_def andThen_def checkOrder_def checkOccur_def get_put_other
          split: option.splits)
       (auto simp: Object_create_def put_def made_def Let_def nth_append)
next
  case Id
  then show ?thesis
    by (simp add: add.simps id_sel_def andThen_def checkOrder_def checkOccur_def get_put_other
          split: option.splits)
       (auto simp: Object_create_def put_def made_def Let_def nth_append)
next
  case Class
  then show ?thesis
    by (simp add: add.simps class_sel_def andThen_def checkOrder_def get_put_other
          split: option.splits)
       (auto simp: Object_create_def put_def made_def Let_def nth_append)
next
  case Attr
  then show ?thesis
    by (simp add: add.simps attr_def andThen_def checkOrder_def get_put_other
          split: option.splits)
       (auto simp: Object_create_def put_def made_def Let_def nth_append)
next
  case PseudoClass
  then show ?thesis
    by (simp add: add.simps pseudoClass_def andThen_def checkOrder_def get_put_other
          split: option.splits)
       (auto simp: Object_create_def put_def made_def Let_def nth_append)
next
  case PseudoElement
  then show ?thesis
    by (simp add: add.simps pseudoElement_def andThen_def checkOrder_def checkOccur_def get_put_other
          split: option.splits)
       (auto simp: Object_create_def put_def made_def Let_def nth_append)
qed

lemma combine_eq_gen:
  "combine w this l c r =
     (w\<lparr>heap := heap w @
         [\<lparr>proto = Some cssSelectorBuilder,
           result = Some (template (get (fst (Object_create w cssSelectorBuilder)) l result)
                      @ '' '' @ c @ '' '' @
                      template (get (fst (Object_create w cssSelectorBuilder)) r result)),
           order = None, occurEl = None, occurId = None, occurPE = None\<rparr>]\<rparr>,
      Inr (length (heap w)))"
  by (simp add: combine_def Object_create_def put_def Let_def nth_append)

lemma proto_made [simp]: "proto (made p r) = Some cssSelectorBuilder"
  by (simp add: made_def)

lemma exec_shape:
  "exec c w = (w, Inl OrderViolation) \<or>
   exec c w = (w\<lparr>console := console w @ [1]\<rparr>, Inl CardinalityViolation) \<or>
   (exec c w = (w\<lparr>heap := heap w @ [last (heap (fst (exec c w)))]\<rparr>, Inr (length (heap w))) \<and>
    proto (last (heap (fst (exec c w)))) = Some cssSelectorBuilder)"
  by (cases c) (simp_all add: add_eq_gen combine_eq_gen)

lemma intact_grow: "intact w \<Longrightarrow> intact (w\<lparr>heap := heap w @ xs\<rparr>)"
  by (simp add: intact_def nth_append)

lemma intact_console: "intact (w\<lparr>console := c\<rparr>) = intact w"
  by (simp add: intact_def)

lemma builder_grow: "builder w a \<Longrightarrow> builder (w\<lparr>heap := heap w @ xs\<rparr>) a"
  by (auto simp: builder_def nth_append)

lemma builder_new:
  "proto x = Some cssSelectorBuilder \<Longrightarrow> builder (w\<lparr>heap := heap w @ [x]\<rparr>) (length (heap w))"
  by (simp add: builder_def)

text \<open>
  The stores the program reaches: the literal is intact at the start and stays so, and
  what a call returns is a builder of the new store, beside the builders there were.
\<close>

lemma init_ok: "intact init \<and> builder init cssSelectorBuilder"
  by (simp add: intact_def builder_def init_def cssSelectorBuilder_def)

lemma exec_keeps:
  assumes "exec c w = (w', x)"
  shows "(intact w \<longrightarrow> intact w') \<and> (builder w a \<longrightarrow> builder w' a) \<and>
         (\<forall>n. x = Inr n \<longrightarrow> builder w' n)"
proof -
  consider (order) "w' = w" "x = Inl OrderViolation"
    | (occur) "w' = w\<lparr>console := console w @ [1]\<rparr>" "x = Inl CardinalityViolation"
    | (made) y where "w' = w\<lparr>heap := heap w @ [y]\<rparr>" "x = Inr (length (heap w))"
        "proto y = Some cssSelectorBuilder"
    using exec_shape [of c w] assms by auto
  then show ?thesis
  proof cases
    case order
    then show ?thesis by simp
  next
    case occur
    then show ?thesis by (simp add: intact_console builder_def)
  next
    case made
    then show ?thesis by (simp add: intact_grow builder_grow builder_new)
  qed
qed

lemma add_success:
  "add p w b v = (w', Inr n) \<Longrightarrow>
     w' = w\<lparr>heap := heap w @
            [made p (template (get (fst (Object_create w cssSelectorBuilder)) b result)
               @ spec_append p v)]\<rparr> \<and>
     n = length (heap w) \<and>
     (\<forall>s. get w b order = Some s \<longrightarrow> s \<le> ordinal p) \<and>
     occur p w b \<noteq> Some 1"
  by (auto simp: add_eq_gen split: if_splits)

lemma ordinal_inj: "ordinal p = ordinal q \<Longrightarrow> p = q"
  by (cases p; cases q; simp)

lemma order_made: "get (w\<lparr>heap := heap w @ [made p r]\<rparr>) (length (heap w)) order = Some (ordinal p)"
  by (simp add: get_new_own made_def)

lemma occur_made:
  "once p \<Longrightarrow> occur p (w\<lparr>heap := heap w @ [made p r]\<rparr>) (length (heap w)) = Some 1"
  by (cases p) (simp_all add: get_new_own made_def)

lemma chain_last:
  "chain ps w0 b0 = (w, Inr b) \<Longrightarrow> ps \<noteq> [] \<Longrightarrow>
     (\<exists>w1 r. w = w1\<lparr>heap := heap w1 @ [made (fst (last ps)) r]\<rparr> \<and> b = length (heap w1)) \<and>
     (\<forall>q \<in> fst ` set ps. ordinal q \<le> ordinal (fst (last ps)))"
proof (induction ps arbitrary: w0 b0)
  case Nil
  then show ?case by simp
next
  case (Cons x ps)
  obtain p v where x: "x = (p, v)" by (cases x)
  from Cons.prems(1) x obtain w1 b1 where a: "add p w0 b0 v = (w1, Inr b1)"
    and c: "chain ps w1 b1 = (w, Inr b)"
    by (auto simp: andThen_def split: prod.splits sum.splits)
  note s = add_success [OF a]
  show ?case
  proof (cases ps)
    case Nil
    with c s x show ?thesis by auto
  next
    case (Cons y qs)
    obtain p2 v2 where y: "y = (p2, v2)" by (cases y)
    from c Cons y obtain w2 b2 where a2: "add p2 w1 b1 v2 = (w2, Inr b2)"
      by (auto simp: andThen_def split: prod.splits sum.splits)
    from s have "get w1 b1 order = Some (ordinal p)"
      using order_made by metis
    with add_success [OF a2] have le: "ordinal p \<le> ordinal p2" by blast
    from Cons have ne: "ps \<noteq> []" by simp
    note ih = Cons.IH [OF c ne]
    from ih Cons y have "ordinal p2 \<le> ordinal (fst (last ps))" by auto
    with le ih x ne show ?thesis by auto
  qed
qed

lemma intact_made_back: "intact (w\<lparr>heap := heap w @ [made q r]\<rparr>) \<Longrightarrow> intact w"
  by (cases "heap w") (auto simp: intact_def cssSelectorBuilder_def made_def origin_def nth_append)

lemma chain_intact: "chain ps w0 b0 = (w, Inr b) \<Longrightarrow> intact w0 \<Longrightarrow> intact w"
proof (induction ps arbitrary: w0 b0)
  case Nil
  then show ?case by simp
next
  case (Cons x ps)
  obtain p v where x: "x = (p, v)" by (cases x)
  from Cons.prems(1) x obtain w1 b1 where a: "add p w0 b0 v = (w1, Inr b1)"
    and c: "chain ps w1 b1 = (w, Inr b)"
    by (auto simp: andThen_def split: prod.splits sum.splits)
  from add_success [OF a] Cons.prems(2) have "intact w1"
    using intact_grow by metis
  with Cons.IH [OF c] show ?case .
qed

lemma occur_literal: "intact w \<Longrightarrow> occur p w cssSelectorBuilder \<noteq> Some 1"
  by (cases p) (simp_all add: get_origin origin_def)

lemma occur_made_iff:
  "intact w \<Longrightarrow>
   occur p (w\<lparr>heap := heap w @ [made q r]\<rparr>) (length (heap w)) = Some 1 \<longleftrightarrow> once p \<and> p = q"
  by (cases p; cases q)
     (simp_all add: get_new_own get_new_inherit get_origin made_def origin_def)

lemma cardinality_on_chain:
  assumes i: "intact w0" and c: "chain ps w0 b0 = (w, Inr b)"
    and s: "ps \<noteq> [] \<or> b0 = cssSelectorBuilder"
  shows "snd (add p w b v) = Inl CardinalityViolation \<longleftrightarrow>
           once p \<and> ps \<noteq> [] \<and> p = fst (last ps)"
proof (cases "ps = []")
  case True
  with c s have "w = w0" "b = cssSelectorBuilder" by simp_all
  with i True occur_literal [of w0 p] show ?thesis
    by (simp add: add_eq_gen)
next
  case False
  from chain_last [OF c False] obtain w1 r
    where w: "w = w1\<lparr>heap := heap w1 @ [made (fst (last ps)) r]\<rparr>" and b: "b = length (heap w1)"
    by blast
  from chain_intact [OF c i] w have i1: "intact w1"
    using intact_made_back by blast
  have g: "get w b order = Some (ordinal (fst (last ps)))"
    unfolding w b by (rule order_made)
  have o: "occur p w b = Some 1 \<longleftrightarrow> once p \<and> p = fst (last ps)"
    unfolding w b using i1 by (rule occur_made_iff)
  from g o False show ?thesis
    by (auto simp: add_eq_gen)
qed

lemma add_new:
  assumes "intact w" and "builder w b" and "add p w b v = (w', Inr n)"
  shows "\<exists>frag. get w b result = Some frag \<and>
           w' = w\<lparr>heap := heap w @ [made p (frag @ spec_append p v)]\<rparr> \<and>
           n = length (heap w)"
proof -
  from assms obtain frag where f: "get w b result = Some frag"
    using builder_result by blast
  from assms(2) have "b < length (heap w)"
    by (simp add: builder_def)
  with add_success [OF assms(3)] f show ?thesis
    by (simp add: get_create_old template_def)
qed

text \<open>The facts that run a call on a store that is written out.\<close>

lemmas run = andThen_def add_eq_gen get_def lookup.simps init_def origin_def made_def
  Object_create_def cssSelectorBuilder_def


section \<open>The order of the parts\<close>

text \<open>
  C1. For every builder and every part's method, with the ordinals element 1, id 2,
  class 3, attribute 4, pseudo-class 5 and pseudo-element 6: the call throws the order
  error exactly when the ordinal is less than the receiver's stage, the value its
  \<^verbatim>\<open>order\<close> reads as. A call whose ordinal equals the stage throws no order error, and
  \<^verbatim>\<open>id\<close> after \<^verbatim>\<open>class\<close> on the literal throws it.
\<close>

theorem order_violation_iff:
  "(snd (add p w b v) = Inl OrderViolation \<longleftrightarrow>
      (\<exists>n. get w b order = Some n \<and> ordinal p < n)) \<and>
   (get w b order = Some (ordinal p) \<longrightarrow> snd (add p w b v) \<noteq> Inl OrderViolation) \<and>
   snd (chain [(Class, x), (Id, y)] init cssSelectorBuilder) = Inl OrderViolation"
proof -
  have 1: "snd (add p w b v) = Inl OrderViolation \<longleftrightarrow>
             (\<exists>n. get w b order = Some n \<and> ordinal p < n)"
    by (simp add: add_eq_gen)
  have 2: "snd (chain [(Class, x), (Id, y)] init cssSelectorBuilder) = Inl OrderViolation"
    by (simp add: run)
  from 1 2 show ?thesis by auto
qed

theorem order_violation_iff_witness:
  "get (fst (add Id init cssSelectorBuilder ''a'')) 1 order = Some (ordinal Id) \<and>
   snd (add Id (fst (add Id init cssSelectorBuilder ''a'')) 1 ''b'') \<noteq> Inl OrderViolation"
proof -
  have h: "get (fst (add Id init cssSelectorBuilder ''a'')) 1 order = Some (ordinal Id)"
    by (simp add: run)
  from h order_violation_iff [of Id "fst (add Id init cssSelectorBuilder ''a'')" 1 "''b''"]
  show ?thesis by blast
qed

text \<open>
  C8. Along a chain of successful calls of the parts' methods, with no \<^verbatim>\<open>combine\<close> in
  between, the stage never decreases: a successful call yields a builder whose stage is
  the call's ordinal, and that is at least the receiver's stage; so the stage at the end
  of any such chain is at least the stage at its start.
\<close>

theorem stage_monotone:
  "(add p w b v = (w', Inr n) \<and> get w b order = Some s \<longrightarrow>
      get w' n order = Some (ordinal p) \<and> s \<le> ordinal p) \<and>
   (chain ps w b = (w'', Inr b') \<and> get w b order = Some s \<longrightarrow>
      (\<exists>s'. get w'' b' order = Some s' \<and> s \<le> s'))"
proof -
  have step: "get w' n order = Some (ordinal p) \<and> s \<le> ordinal p"
    if "add p w b v = (w', Inr n)" and "get w b order = Some s" for p w b v w' n s
    using that by (auto simp: add_eq_gen get_new_own made_def split: if_splits)
  have "\<exists>s'. get w'' b' order = Some s' \<and> s \<le> s'"
    if "chain ps w b = (w'', Inr b')" and "get w b order = Some s"
    using that
  proof (induction ps arbitrary: w b s)
    case Nil
    then show ?case by simp
  next
    case (Cons x ps)
    obtain p v where x: "x = (p, v)" by (cases x)
    from Cons.prems(1) x obtain w1 b1 where a: "add p w b v = (w1, Inr b1)"
      and c: "chain ps w1 b1 = (w'', Inr b')"
      by (auto simp: andThen_def split: prod.splits sum.splits)
    from step [OF a Cons.prems(2)] Cons.IH [OF c, of "ordinal p"] show ?case
      by force
  qed
  with step show ?thesis by blast
qed

theorem stage_monotone_witness:
  "add Class init cssSelectorBuilder ''a'' =
     (fst (add Class init cssSelectorBuilder ''a''), Inr 1) \<and>
   get init cssSelectorBuilder order = Some 0 \<and>
   get (fst (add Class init cssSelectorBuilder ''a'')) 1 order = Some (ordinal Class) \<and>
   (0::int) \<le> ordinal Class \<and>
   chain [(Element, ''p''), (Class, ''a'')] init cssSelectorBuilder =
     (fst (chain [(Element, ''p''), (Class, ''a'')] init cssSelectorBuilder), Inr 2) \<and>
   (\<exists>s'. get (fst (chain [(Element, ''p''), (Class, ''a'')] init cssSelectorBuilder)) 2 order
            = Some s' \<and> 0 \<le> s')"
proof -
  let ?L = "[(Element, ''p''), (Class, ''a'')]"
  have a: "add Class init cssSelectorBuilder ''a'' =
     (fst (add Class init cssSelectorBuilder ''a''), Inr 1)"
    by (simp add: run)
  have g: "get init cssSelectorBuilder order = Some 0"
    by (simp add: run)
  have c: "chain ?L init cssSelectorBuilder = (fst (chain ?L init cssSelectorBuilder), Inr 2)"
    by (simp add: run)
  from a g c
    stage_monotone [of Class init cssSelectorBuilder "''a''"
      "fst (add Class init cssSelectorBuilder ''a'')" 1 0 ?L
      "fst (chain ?L init cssSelectorBuilder)" 2]
  show ?thesis
    by blast
qed

section \<open>Parts that may occur once\<close>

text \<open>
  C2, as the specification states it: the method of a part that may occur once (element,
  id, pseudo-element) throws the occurrence error whenever that part was already added on
  the builder's lineage. It does not: after \<^verbatim>\<open>element('a').id('b')\<close> a second
  \<^verbatim>\<open>element\<close> throws the order error, because \<^verbatim>\<open>checkOrder\<close> runs first.
\<close>

theorem cardinality_counterexample:
  "snd (chain [(Element, ''a''), (Id, ''b'')] init cssSelectorBuilder) = Inr 2 \<and>
   snd (add Element (fst (chain [(Element, ''a''), (Id, ''b'')] init cssSelectorBuilder)) 2 ''c'')
     = Inl OrderViolation \<and>
   snd (add Element (fst (chain [(Element, ''a''), (Id, ''b'')] init cssSelectorBuilder)) 2 ''c'')
     \<noteq> Inl CardinalityViolation"
  by (simp add: run template_def)

text \<open>
  C2, amended. The method of a part that may occur once throws the occurrence error
  exactly when the receiver's stage does not exceed the part's ordinal and the receiver's
  flag for the part reads 1. On a chain of successful calls from the literal that is
  exactly when the part was the last one added: never on the literal itself, never for a
  part the chain has not added, and when the part was added earlier on the chain and
  another part after it, the call throws the order error instead. The methods for class,
  attribute and pseudo-class never throw the occurrence error; \<^verbatim>\<open>id\<close> twice throws it on
  the second call, and \<^verbatim>\<open>class('a').class('b').stringify()\<close> on the literal returns
  \<^verbatim>\<open>.a.b\<close>.
\<close>

theorem cardinality_amended:
  "(snd (add p w b v) = Inl CardinalityViolation \<longleftrightarrow>
      occur p w b = Some 1 \<and> \<not> (\<exists>n. get w b order = Some n \<and> ordinal p < n)) \<and>
   (\<not> once p \<longrightarrow> snd (add p w b v) \<noteq> Inl CardinalityViolation) \<and>
   (intact w0 \<and> chain ps w0 b0 = (w, Inr b) \<and> (ps \<noteq> [] \<or> b0 = cssSelectorBuilder) \<longrightarrow>
      (snd (add p w b v) = Inl CardinalityViolation \<longleftrightarrow>
         once p \<and> ps \<noteq> [] \<and> p = fst (last ps))) \<and>
   (chain ps w0 b0 = (w, Inr b) \<and> once p \<and> p \<in> fst ` set ps \<longrightarrow>
      snd (add p w b v) =
        Inl (if p = fst (last ps) then CardinalityViolation else OrderViolation)) \<and>
   snd (chain [(Id, x), (Id, y)] init cssSelectorBuilder) = Inl CardinalityViolation \<and>
   snd (andThen (chain [(Class, ''a''), (Class, ''b'')] init cssSelectorBuilder) stringify) =
     Inr (Some ''.a.b'')"
proof -
  have 1: "snd (add p w b v) = Inl CardinalityViolation \<longleftrightarrow>
      occur p w b = Some 1 \<and> \<not> (\<exists>n. get w b order = Some n \<and> ordinal p < n)"
    by (simp add: add_eq_gen)
  have 2: "snd (add p w b v) \<noteq> Inl CardinalityViolation" if "\<not> once p"
    using that by (cases p) (simp_all add: add_eq_gen)
  have 3: "snd (add p w b v) =
        Inl (if p = fst (last ps) then CardinalityViolation else OrderViolation)"
    if c: "chain ps w0 b0 = (w, Inr b)" and o: "once p" and m: "p \<in> fst ` set ps"
  proof -
    from m have ne: "ps \<noteq> []" by auto
    from chain_last [OF c ne] obtain w1 r
      where w: "w = w1\<lparr>heap := heap w1 @ [made (fst (last ps)) r]\<rparr>" and b: "b = length (heap w1)"
        and le: "ordinal p \<le> ordinal (fst (last ps))"
      using m by blast
    have g: "get w b order = Some (ordinal (fst (last ps)))"
      unfolding w b by (rule order_made)
    show ?thesis
    proof (cases "p = fst (last ps)")
      case True
      with o have "occur p w b = Some 1"
        unfolding w b by (simp add: occur_made)
      with g True show ?thesis
        by (simp add: add_eq_gen)
    next
      case False
      with ordinal_inj [of p "fst (last ps)"] have "ordinal p \<noteq> ordinal (fst (last ps))"
        by blast
      with le have "ordinal p < ordinal (fst (last ps))"
        by simp
      with g False show ?thesis
        by (simp add: add_eq_gen)
    qed
  qed
  have 4: "snd (chain [(Id, x), (Id, y)] init cssSelectorBuilder) = Inl CardinalityViolation"
    by (simp add: run)
  have 5: "snd (andThen (chain [(Class, ''a''), (Class, ''b'')] init cssSelectorBuilder) stringify) =
     Inr (Some ''.a.b'')"
    by code_simp
  have 6: "snd (add p w b v) = Inl CardinalityViolation \<longleftrightarrow>
         once p \<and> ps \<noteq> [] \<and> p = fst (last ps)"
    if "intact w0" and "chain ps w0 b0 = (w, Inr b)" and "ps \<noteq> [] \<or> b0 = cssSelectorBuilder"
    using that by (rule cardinality_on_chain)
  from 1 2 3 4 5 6 show ?thesis by blast
qed

theorem cardinality_amended_witness:
  "chain [(Element, ''a''), (Id, ''b'')] init cssSelectorBuilder =
     (fst (chain [(Element, ''a''), (Id, ''b'')] init cssSelectorBuilder), Inr 2) \<and>
   once Id \<and> Id \<in> fst ` set [(Element, ''a''), (Id, ''b'')] \<and>
   snd (add Id (fst (chain [(Element, ''a''), (Id, ''b'')] init cssSelectorBuilder)) 2 ''c'')
     = Inl CardinalityViolation \<and>
   once Element \<and> Element \<in> fst ` set [(Element, ''a''), (Id, ''b'')] \<and>
   snd (add Element (fst (chain [(Element, ''a''), (Id, ''b'')] init cssSelectorBuilder)) 2 ''c'')
     = Inl OrderViolation \<and>
   \<not> once Class \<and>
   snd (add Class (fst (chain [(Element, ''a''), (Id, ''b'')] init cssSelectorBuilder)) 2 ''c'')
     \<noteq> Inl CardinalityViolation \<and>
   intact init \<and>
   chain [(Class, ''a'')] init cssSelectorBuilder =
     (fst (chain [(Class, ''a'')] init cssSelectorBuilder), Inr 1) \<and>
   snd (add PseudoElement (fst (chain [(Class, ''a'')] init cssSelectorBuilder)) 1 ''x'')
     \<noteq> Inl CardinalityViolation \<and>
   chain [] init cssSelectorBuilder = (init, Inr cssSelectorBuilder) \<and>
   snd (add Element init cssSelectorBuilder ''e'') \<noteq> Inl CardinalityViolation"
proof -
  let ?L = "[(Element, ''a''), (Id, ''b'')]"
  let ?W = "fst (chain ?L init cssSelectorBuilder)"
  let ?K = "[(Class, ''a'')]"
  let ?V = "fst (chain ?K init cssSelectorBuilder)"
  have c: "chain ?L init cssSelectorBuilder = (?W, Inr 2)"
    by (simp add: run)
  have k: "chain ?K init cssSelectorBuilder = (?V, Inr 1)"
    by (simp add: run)
  have e: "chain [] init cssSelectorBuilder = (init, Inr cssSelectorBuilder)"
    by simp
  have i: "intact init"
    by (simp add: intact_def init_def cssSelectorBuilder_def)
  have s: "once Id" "once Element" "\<not> once Class"
    "Id \<in> fst ` set ?L" "Element \<in> fst ` set ?L"
    "fst (last ?L) = Id" "Element \<noteq> Id"
    "?K \<noteq> []" "PseudoElement \<noteq> fst (last ?K)"
    "([]::(part \<times> string) list) = []"
    by simp_all
  have r1: "snd (add Id ?W 2 ''c'') = Inl CardinalityViolation"
    using cardinality_amended [of Id ?W 2 "''c''" init ?L cssSelectorBuilder] c s
    by (simp del: chain.simps)
  have r2: "snd (add Element ?W 2 ''c'') = Inl OrderViolation"
    using cardinality_amended [of Element ?W 2 "''c''" init ?L cssSelectorBuilder] c s
    by (simp del: chain.simps)
  have r3: "snd (add Class ?W 2 ''c'') \<noteq> Inl CardinalityViolation"
    using cardinality_amended [of Class ?W 2 "''c''" init ?L cssSelectorBuilder] s
    by blast
  have r4: "snd (add PseudoElement ?V 1 ''x'') \<noteq> Inl CardinalityViolation"
    using cardinality_amended [of PseudoElement ?V 1 "''x''" init ?K cssSelectorBuilder] k i s
    by blast
  have r5: "snd (add Element init cssSelectorBuilder ''e'') \<noteq> Inl CardinalityViolation"
    using cardinality_amended
      [of Element init cssSelectorBuilder "''e''" init "[]" cssSelectorBuilder] e i
    by blast
  from c k e i s r1 r2 r3 r4 r5 show ?thesis
    by blast
qed


section \<open>The builder a successful call returns\<close>

text \<open>
  C3, as the specification states it: the new builder's other flags are copied from the
  receiver. They are not: the receiver made by \<^verbatim>\<open>element('a')\<close> has its element flag at
  1, and the builder its \<^verbatim>\<open>id('x')\<close> returns reads that flag as 0.
\<close>

theorem flags_copied_counterexample:
  "snd (add Element init cssSelectorBuilder ''a'') = Inr 1 \<and>
   get (fst (add Element init cssSelectorBuilder ''a'')) 1 occurEl = Some 1 \<and>
   snd (add Id (fst (add Element init cssSelectorBuilder ''a'')) 1 ''x'') = Inr 2 \<and>
   get (fst (add Id (fst (add Element init cssSelectorBuilder ''a'')) 1 ''x'')) 2 occurEl
     = Some 0 \<and>
   get (fst (add Id (fst (add Element init cssSelectorBuilder ''a'')) 1 ''x'')) 2 occurEl
     \<noteq> get (fst (add Element init cssSelectorBuilder ''a'')) 1 occurEl"
  by (simp add: run template_def)

text \<open>
  C3, amended. A successful call of a part's method on a builder returns a new builder
  whose fragment is the receiver's followed by the part's formatted text, whose stage is
  the part's ordinal, whose own flag (for element, id and pseudo-element) is 1, and whose
  other flags are not the receiver's: the new object is made from the literal, so they
  read as the literal's, 0.
\<close>

theorem add_success_amended:
  assumes "intact w" and "builder w b" and "add p w b v = (w', Inr n)"
  shows "\<exists>frag. get w b result = Some frag \<and>
           n = length (heap w) \<and> length (heap w') = Suc (length (heap w)) \<and>
           get w' n result = Some (frag @ spec_append p v) \<and>
           get w' n order = Some (ordinal p) \<and>
           get w' n occurEl = Some (if p = Element then 1 else 0) \<and>
           get w' n occurId = Some (if p = Id then 1 else 0) \<and>
           get w' n occurPE = Some (if p = PseudoElement then 1 else 0) \<and>
           intact w' \<and> builder w' n"
proof -
  from add_new [OF assms] obtain frag where f: "get w b result = Some frag"
    and w': "w' = w\<lparr>heap := heap w @ [made p (frag @ spec_append p v)]\<rparr>"
    and n: "n = length (heap w)"
    by blast
  have flags: "get w cssSelectorBuilder occurEl = Some 0"
    "get w cssSelectorBuilder occurId = Some 0" "get w cssSelectorBuilder occurPE = Some 0"
    using assms(1) by (simp_all add: get_origin origin_def)
  show ?thesis
    unfolding w' n using f flags assms(1)
    by (simp add: get_new_own get_new_inherit made_def intact_grow builder_new)
qed

theorem add_success_amended_witness:
  "intact init \<and> builder init cssSelectorBuilder \<and>
   add Id init cssSelectorBuilder ''x'' = (fst (add Id init cssSelectorBuilder ''x''), Inr 1) \<and>
   get init cssSelectorBuilder result = Some '''' \<and>
   get (fst (add Id init cssSelectorBuilder ''x'')) 1 result = Some ''#x'' \<and>
   get (fst (add Id init cssSelectorBuilder ''x'')) 1 order = Some 2 \<and>
   get (fst (add Id init cssSelectorBuilder ''x'')) 1 occurEl = Some 0 \<and>
   get (fst (add Id init cssSelectorBuilder ''x'')) 1 occurId = Some 1 \<and>
   get (fst (add Id init cssSelectorBuilder ''x'')) 1 occurPE = Some 0"
proof -
  have i: "intact init" and b: "builder init cssSelectorBuilder"
    by (simp_all add: intact_def builder_def init_def cssSelectorBuilder_def)
  have a: "add Id init cssSelectorBuilder ''x'' =
             (fst (add Id init cssSelectorBuilder ''x''), Inr 1)"
    by (simp add: run)
  have g: "get init cssSelectorBuilder result = Some ''''"
    by (simp add: run)
  from add_success_amended [OF i b a] g i b a show ?thesis
    by auto
qed


section \<open>Calls leave the objects they are given alone\<close>

text \<open>
  C5. A call of a part's method or of \<^verbatim>\<open>combine\<close> changes no object that exists: every
  object of the store, the receiver, the arguments and the literal among them, is the same
  after the call, and its fragment, stage and flags read the same. A call that throws
  leaves the store as it was and returns no builder; a call that succeeds returns the one
  object it appended.
\<close>

theorem calls_pure:
  "exec c w = (w', x) \<Longrightarrow>
     (\<forall>a<length (heap w).
        heap w' ! a = heap w ! a \<and>
        get w' a result = get w a result \<and> get w' a order = get w a order \<and>
        get w' a occurEl = get w a occurEl \<and> get w' a occurId = get w a occurId \<and>
        get w' a occurPE = get w a occurPE) \<and>
     (case x of
        Inl e \<Rightarrow> heap w' = heap w
      | Inr n \<Rightarrow> n = length (heap w) \<and> length (heap w') = Suc (length (heap w))) \<and>
     (intact w \<longrightarrow> intact w')"
proof -
  assume e: "exec c w = (w', x)"
  consider (order) "w' = w" "x = Inl OrderViolation"
    | (occur) "w' = w\<lparr>console := console w @ [1]\<rparr>" "x = Inl CardinalityViolation"
    | (made) y where "w' = w\<lparr>heap := heap w @ [y]\<rparr>" "x = Inr (length (heap w))"
    using exec_shape [of c w] e by auto
  then show ?thesis
  proof cases
    case order
    then show ?thesis by simp
  next
    case occur
    then show ?thesis by (simp add: intact_console)
  next
    case made
    then show ?thesis by (simp add: get_old nth_append intact_grow)
  qed
qed

theorem calls_pure_witness:
  "exec (Add Class cssSelectorBuilder ''a'') init =
     (init\<lparr>heap := [origin, made Class ''.a'']\<rparr>, Inr 1) \<and>
   get (init\<lparr>heap := [origin, made Class ''.a'']\<rparr>) cssSelectorBuilder result = Some '''' \<and>
   get (init\<lparr>heap := [origin, made Class ''.a'']\<rparr>) cssSelectorBuilder order = Some 0 \<and>
   intact init \<and> intact (init\<lparr>heap := [origin, made Class ''.a'']\<rparr>)"
proof -
  have e: "exec (Add Class cssSelectorBuilder ''a'') init =
     (init\<lparr>heap := [origin, made Class ''.a'']\<rparr>, Inr 1)"
    by (simp add: run template_def)
  have g: "get init cssSelectorBuilder result = Some ''''"
    "get init cssSelectorBuilder order = Some 0"
    by (simp_all add: run)
  have i: "intact init" "cssSelectorBuilder < length (heap init)"
    by (simp_all add: intact_def init_def cssSelectorBuilder_def)
  from calls_pure [OF e] g i e show ?thesis
    by auto
qed


section \<open>Combining two selectors\<close>

text \<open>
  C4. For builders \<open>l\<close> and \<open>r\<close> and any combinator string, \<^verbatim>\<open>combine\<close> returns a new
  builder whose fragment is the fragment of \<open>l\<close>, a space, the combinator, a space and
  the fragment of \<open>r\<close>, whose stage is 0 and whose three flags are 0.
\<close>

theorem combine_result:
  assumes "intact w" and "builder w l" and "builder w r"
  shows "\<exists>fl fr w'.
           get w l result = Some fl \<and> get w r result = Some fr \<and>
           combine w this l c r = (w', Inr (length (heap w))) \<and>
           length (heap w') = Suc (length (heap w)) \<and>
           get w' (length (heap w)) result = Some (fl @ '' '' @ c @ '' '' @ fr) \<and>
           get w' (length (heap w)) order = Some 0 \<and>
           get w' (length (heap w)) occurEl = Some 0 \<and>
           get w' (length (heap w)) occurId = Some 0 \<and>
           get w' (length (heap w)) occurPE = Some 0"
proof -
  from assms obtain fl fr where fl: "get w l result = Some fl" and fr: "get w r result = Some fr"
    using builder_result by blast
  from assms have v: "l < length (heap w)" "r < length (heap w)"
    by (simp_all add: builder_def)
  show ?thesis
    using fl fr v assms(1)
    by (simp add: combine_eq_gen get_create_old template_def get_new_own get_new_inherit
          get_origin origin_def)
qed

theorem combine_result_witness:
  "intact (init\<lparr>heap := [origin, made Element ''a'', made Element ''b'']\<rparr>) \<and>
   builder (init\<lparr>heap := [origin, made Element ''a'', made Element ''b'']\<rparr>) 1 \<and>
   builder (init\<lparr>heap := [origin, made Element ''a'', made Element ''b'']\<rparr>) 2 \<and>
   snd (combine (init\<lparr>heap := [origin, made Element ''a'', made Element ''b'']\<rparr>)
          cssSelectorBuilder 1 ''+'' 2) = Inr 3 \<and>
   get (fst (combine (init\<lparr>heap := [origin, made Element ''a'', made Element ''b'']\<rparr>)
          cssSelectorBuilder 1 ''+'' 2)) 3 result = Some ''a + b'' \<and>
   get (fst (combine (init\<lparr>heap := [origin, made Element ''a'', made Element ''b'']\<rparr>)
          cssSelectorBuilder 1 ''+'' 2)) 3 order = Some 0 \<and>
   get (fst (combine (init\<lparr>heap := [origin, made Element ''a'', made Element ''b'']\<rparr>)
          cssSelectorBuilder 1 ''+'' 2)) 3 occurEl = Some 0"
proof -
  let ?W = "init\<lparr>heap := [origin, made Element ''a'', made Element ''b'']\<rparr>"
  have i: "intact ?W" and l: "builder ?W 1" and r: "builder ?W 2"
    by (simp_all add: intact_def builder_def init_def cssSelectorBuilder_def)
  have g: "get ?W 1 result = Some ''a''" "get ?W 2 result = Some ''b''"
    by (simp_all add: run)
  have n: "length (heap ?W) = 3"
    by (simp add: init_def)
  note t = combine_result [OF i l r, of cssSelectorBuilder "''+''", unfolded n]
  from t g i l r show ?thesis
    by auto
qed

text \<open>
  C9. \<^verbatim>\<open>combine\<close> throws for no pair of objects and no combinator string, a CSS
  combinator or not: it checks neither order nor occurrence, prints nothing, and returns
  the object it made.
\<close>

theorem combine_never_raises:
  "snd (combine w this l c r) = Inr (length (heap w)) \<and>
   console (fst (combine w this l c r)) = console w"
  by (simp add: combine_eq_gen)


section \<open>Rendering\<close>

text \<open>
  C6. \<^verbatim>\<open>stringify\<close> returns what the receiver's \<^verbatim>\<open>result\<close> reads as and leaves the
  store and the console as they were; called any number of times on the same builder it
  leaves them so and returns the same string.
\<close>

theorem stringify_pure:
  "stringify w b = (w, Inr (get w b result)) \<and>
   ((\<lambda>s. fst (stringify s b)) ^^ k) w = w \<and>
   stringify (((\<lambda>s. fst (stringify s b)) ^^ k) w) b = stringify w b"
proof -
  have "((\<lambda>s. fst (stringify s b)) ^^ k) w = w"
    by (induction k) (simp_all add: stringify_def)
  then show ?thesis
    by (simp add: stringify_def)
qed

text \<open>
  C7. From the literal, \<^verbatim>\<open>id('main').class('container').class('editable').stringify()\<close>
  returns \<^verbatim>\<open>#main.container.editable\<close>, and
  \<^verbatim>\<open>element('a').attr('href$=".png"').pseudoClass('focus').stringify()\<close> returns
  \<^verbatim>\<open>a[href$=".png"]:focus\<close>.
\<close>

theorem end_to_end:
  \<open>snd (andThen (chain [(Id, ''main''), (Class, ''container''), (Class, ''editable'')]
          init cssSelectorBuilder) stringify) = Inr (Some ''#main.container.editable'') \<and>
   snd (andThen (chain [(Element, ''a''), (Attr, ''href$=".png"''), (PseudoClass, ''focus'')]
          init cssSelectorBuilder) stringify) = Inr (Some ''a[href$=".png"]:focus'')\<close>
  by code_simp


section \<open>The rectangle\<close>

text \<open>
  C10. For every width and height, the object \<^verbatim>\<open>Rectangle(width, height)\<close> returns has
  that width, that height, and a \<^verbatim>\<open>getArea()\<close> that returns their product.
\<close>

theorem Rectangle_properties:
  "width (Rectangle w h) = w \<and> height (Rectangle w h) = h \<and>
   getArea (Rectangle w h) () = w * h"
  by (simp add: Rectangle_def)

end
